theory Spec2Isabelle
  imports Complex_Main
begin

section \<open>Arrays, errors and numeric primitives\<close>

text \<open>
  The operands of the library are numpy arrays of rank one (vectors) or rank two
  (matrices).  A rank-two array carries its shape explicitly, so that arrays with
  zero rows and a positive number of columns are values of the model as well; the
  rows are stored as a list of lists.
\<close>

datatype 'a ndarray = Arr1 "'a list" | Arr2 nat nat "'a list list"

fun wf_array :: "'a ndarray \<Rightarrow> bool" where
  "wf_array (Arr1 xs) = True"
| "wf_array (Arr2 r c rows) = (length rows = r \<and> list_all (\<lambda>row. length row = c) rows)"

text \<open>
  Every \<^verbatim>\<open>raise\<close> of the source is a value.  \<^verbatim>\<open>swap\<close> raises \<^verbatim>\<open>ValueError\<close>
  at three places, told apart by their message (\<^verbatim>\<open>InvalidDim: ...\<close>, and two
  messages starting \<^verbatim>\<open>InvalidSys: ...\<close>); a division of Python integers by zero
  raises \<^verbatim>\<open>ZeroDivisionError\<close>.  The last two constructors are the failures of
  the general permutation engine, which \<^verbatim>\<open>swap\<close> calls.
\<close>

datatype error =
    ZeroDivisionError
  | InvalidDim_divide
  | InvalidSys_range
  | InvalidSys_length
  | InvalidDimensionError
  | InvalidPermutationError

text \<open>The error kinds of the error taxonomy, as sets of raise sites.\<close>

fun is_InvalidDimensionError :: "error \<Rightarrow> bool" where
  "is_InvalidDimensionError InvalidDim_divide = True"
| "is_InvalidDimensionError InvalidDimensionError = True"
| "is_InvalidDimensionError _ = False"

fun is_InvalidSubsystemSelectorError :: "error \<Rightarrow> bool" where
  "is_InvalidSubsystemSelectorError InvalidSys_range = True"
| "is_InvalidSubsystemSelectorError InvalidSys_length = True"
| "is_InvalidSubsystemSelectorError _ = False"

text \<open>
  The \<^verbatim>\<open>dim\<close> argument of \<^verbatim>\<open>swap\<close>: omitted, a single integer, or a list that
  \<^verbatim>\<open>np.array\<close> turns into an array of rank one (one dimension per subsystem) or
  of rank two (a table of rows).  \<^verbatim>\<open>len\<close> of an array is the length of its first
  axis.
\<close>

datatype dim_array = Dim1D "int list" | Dim2D "int list list"

datatype dim_arg = DimNone | DimInt int | DimArr dim_array

fun len_dim :: "dim_array \<Rightarrow> nat" where
  "len_dim (Dim1D ds) = length ds"
| "len_dim (Dim2D rows) = length rows"

text \<open>
  \<^verbatim>\<open>np.round\<close> rounds to the nearest integer, a tie to the even neighbour.  The
  quotients it is applied to are modelled as exact rationals.
\<close>

definition np_round :: "rat \<Rightarrow> int" where
  "np_round q =
     (let f = \<lfloor>q\<rfloor>; d = q - of_int f
      in if d < 1 / 2 then f
         else if 1 / 2 < d then f + 1
         else if even f then f else f + 1)"

text \<open>
  \<^verbatim>\<open>np.round(np.sqrt(n))\<close> for a natural number \<open>n\<close>: the integer nearest to
  the square root.  It is the least \<open>k\<close> with \<open>n \<le> k\<^sup>2 + k\<close>, since
  \<open>(k + 1/2)\<^sup>2 = k\<^sup>2 + k + 1/4\<close>; a tie cannot occur.
\<close>

function round_sqrt_from :: "nat \<Rightarrow> nat \<Rightarrow> nat" where
  "round_sqrt_from n k = (if n \<le> k * k + k then k else round_sqrt_from n (Suc k))"
  by pat_completeness auto
termination
  by (relation "measure (\<lambda>(n, k). n - (k * k + k))") auto

declare round_sqrt_from.simps [simp del]

definition round_sqrt :: "nat \<Rightarrow> nat" where
  "round_sqrt n = round_sqrt_from n 0"

text \<open>\<^verbatim>\<open>np.finfo(float).eps\<close>, the machine epsilon of a double.\<close>

definition eps :: rat where
  "eps = 1 / 2 ^ 52"

text \<open>Python's \<^verbatim>\<open>any\<close> on a list of integers: some element is non-zero.\<close>

definition py_any :: "int list \<Rightarrow> bool" where
  "py_any xs = list_ex (\<lambda>x. x \<noteq> 0) xs"

section \<open>swap\<close>

text \<open>
  \<^verbatim>\<open>swap(rho, sys, dim, row_only)\<close> of \<^verbatim>\<open>toqito/perms/swap.py\<close>, in two
  parts.  \<open>swap_dim\<close> is the first part of the body (lines 33 to 66, \<^verbatim>\<open>sys\<close>'s
  default apart): it reads the shape of \<^verbatim>\<open>rho\<close> and turns the \<^verbatim>\<open>dim\<close>
  argument into the array of dimensions and the number \<^verbatim>\<open>num_sys\<close> of
  subsystems, or raises.  The quotients \<^verbatim>\<open>rho_dims[i]/dim\<close> are exact rationals
  here; the two entries they fill are overwritten by their rounded values in lines
  62 and 63, before anything else reads them.
\<close>

definition rho_dims :: "'a ndarray \<Rightarrow> nat \<times> nat" where
  "rho_dims rho = (case rho of Arr1 xs \<Rightarrow> (1, length xs) | Arr2 r c rows \<Rightarrow> (r, c))"

definition swap_dim :: "'a ndarray \<Rightarrow> dim_arg \<Rightarrow> error + dim_array \<times> nat" where
  "swap_dim rho dim_in =
     (let (rows, cols) = rho_dims rho;
          round_dim = (int (round_sqrt rows), int (round_sqrt cols))
      in case dim_in of
           DimNone \<Rightarrow>
             Inr (Dim2D [[fst round_dim, fst round_dim],
                         [snd round_dim, snd round_dim]], 2)
         | DimInt d \<Rightarrow>
             if d = 0 then Inl ZeroDivisionError
             else
               let q0 = of_nat rows / of_int d;
                   q1 = of_nat cols / of_int d
               in if 2 * of_nat (rows * cols) * eps
                       \<le> \<bar>q0 - of_int (np_round q0)\<bar> + \<bar>q1 - of_int (np_round q1)\<bar>
                  then Inl InvalidDim_divide
                  else Inr (Dim2D [[d, np_round q0], [d, np_round q1]], 2)
         | DimArr a \<Rightarrow> Inr (a, len_dim a))"

text \<open>
  The whole function.  The general permutation engine \<^verbatim>\<open>permute_systems\<close> that
  the last line calls is the first argument.  The comparison \<^verbatim>\<open>any(sys) < 1\<close>
  compares a Python boolean with an integer (\<^verbatim>\<open>True\<close> is 1, \<^verbatim>\<open>False\<close> is 0).
  In the source the default of \<^verbatim>\<open>sys\<close> is set between the two parts of
  \<open>swap_dim\<close>; neither reads the other's variables.
\<close>

definition swap ::
  "('a ndarray \<Rightarrow> int list \<Rightarrow> dim_array \<Rightarrow> bool \<Rightarrow> error + 'a ndarray) \<Rightarrow>
   'a ndarray \<Rightarrow> int list option \<Rightarrow> dim_arg \<Rightarrow> bool \<Rightarrow> error + 'a ndarray" where
  "swap permute_systems rho sys dim_in row_only =
     (let sys = (case sys of None \<Rightarrow> [1, 2] | Some s \<Rightarrow> s)
      in case swap_dim rho dim_in of
           Inl e \<Rightarrow> Inl e
         | Inr (dim', num_sys) \<Rightarrow>
             if of_bool (py_any sys) < (1::int) \<or> int num_sys < of_bool (py_any sys)
             then Inl InvalidSys_range
             else if length sys \<noteq> 2 then Inl InvalidSys_length
             else permute_systems rho (rev [1..int num_sys]) dim' row_only)"

text \<open>
  The permutation that exchanges positions \<open>a\<close> and \<open>b\<close> (counted from 1) in
  the identity ordering of \<open>n\<close> slots, as the documentation of \<^verbatim>\<open>swap\<close>
  describes the operation.
\<close>

definition transposition_perm :: "nat \<Rightarrow> int \<Rightarrow> int \<Rightarrow> int list" where
  "transposition_perm n a b =
     map (\<lambda>i. if i = a then b else if i = b then a else i) [1..int n]"

section \<open>The permutation engine\<close>

text \<open>
  Modelled from the spec: \<^verbatim>\<open>permute_systems\<close> of \<^verbatim>\<open>toqito/perms/permute_systems.py\<close>,
  which \<^verbatim>\<open>swap\<close> imports and whose source is not part of the development.  The
  definitions of this section follow the design of the subsystem permutation engine
  in the specification (its data model, validation and algorithm).

  Step 2 of the algorithm reads a linear index as nested digits, one per subsystem,
  each ranging over the dimension of its subsystem, the most significant digit first
  (\<open>digits\<close>), and flattens digits back to a linear index (\<open>undigits\<close>).
\<close>

fun digits :: "nat list \<Rightarrow> nat \<Rightarrow> nat list" where
  "digits [] i = []"
| "digits (d # ds) i = i div prod_list ds # digits ds (i mod prod_list ds)"

fun undigits :: "nat list \<Rightarrow> nat list \<Rightarrow> nat" where
  "undigits (d # ds) (e # es) = e * prod_list ds + undigits ds es"
| "undigits _ _ = 0"

text \<open>The index of the first occurrence of an element in a list.\<close>

fun position :: "'a \<Rightarrow> 'a list \<Rightarrow> nat" where
  "position x [] = 0"
| "position x (y # ys) = (if x = y then 0 else Suc (position x ys))"

text \<open>
  Modelled from the spec: the lookup table of step 2, for the subsystem dimensions
  \<open>ds\<close> of one axis.  A permutation lists, for each output slot, the input
  subsystem (counted from 1) that supplies it.  So the output slots have the
  dimensions \<open>out_ds\<close>; an output index is read as digits \<open>e\<close> over
  \<open>out_ds\<close>, the digit of slot \<open>j\<close> is the digit of the input subsystem
  \<open>perm[j]\<close>, and the digits \<open>d\<close> in the order of the input subsystems are
  flattened over \<open>ds\<close>.  The table has one entry per index of the axis.
  \<open>gather\<close> reorders a list by a table (step 4).
\<close>

definition lookup_table :: "int list \<Rightarrow> nat list \<Rightarrow> nat list" where
  "lookup_table perm ds =
     (let out_ds = map (\<lambda>p. ds ! (nat p - 1)) perm
      in map (\<lambda>out.
                let e = digits out_ds out;
                    d = map (\<lambda>s. e ! position (int s + 1) perm) [0..<length ds]
                in undigits ds d)
           [0..<prod_list ds])"

definition gather :: "'a list \<Rightarrow> nat list \<Rightarrow> 'a list" where
  "gather xs table = map (\<lambda>i. xs ! i) table"

text \<open>
  Modelled from the spec: the subsystem dimensions of the data model, as the engine
  reads the array of dimensions that \<^verbatim>\<open>swap\<close> passes: the dimensions along the
  rows and the dimensions along the columns.  A matrix operand with a sequence has
  the same dimensions along both axes; a table of two rows gives the row dimensions
  and the column dimensions.

  A vector operand is read as \<^verbatim>\<open>swap\<close> reads it (\<open>rho_dims\<close>, lines 34 and 35
  of \<^verbatim>\<open>swap.py\<close>): an array of one row, whose own dimensions are the column
  dimensions, the row dimensions being ones.  The specification treats a vector as
  a row or a column array, so a table for a vector may hold the dimensions of the
  vector in either row and ones in the other; the table \<open>[[1, 1], [t, t]]\<close> that
  \<^verbatim>\<open>swap\<close> builds for a vector when \<^verbatim>\<open>dim\<close> is omitted is of the first kind.
\<close>

definition engine_dims :: "'a ndarray \<Rightarrow> dim_array \<Rightarrow> (int list \<times> int list) option" where
  "engine_dims operand dims =
     (case dims of
        Dim1D ds \<Rightarrow>
          (case operand of
             Arr1 xs \<Rightarrow> Some (replicate (length ds) 1, ds)
           | Arr2 r c rows \<Rightarrow> Some (ds, ds))
      | Dim2D tbl \<Rightarrow>
          (case tbl of
             [rd, cd] \<Rightarrow>
               (case operand of
                  Arr1 xs \<Rightarrow> if prod_list rd = 1 then Some (rd, cd) else Some (cd, rd)
                | Arr2 r c rows \<Rightarrow> Some (rd, cd))
           | _ \<Rightarrow> None))"

text \<open>
  Modelled from the spec: the invariant of the subsystem dimensions.  There is one
  row dimension and one column dimension per subsystem, every dimension is a
  positive integer, the product of the row dimensions is the row count of the
  operand and the product of the column dimensions is its column count (one row and
  as many columns as entries for a vector).
\<close>

definition dims_accepted :: "'a ndarray \<Rightarrow> int list \<Rightarrow> int list \<Rightarrow> bool" where
  "dims_accepted operand rd cd \<longleftrightarrow>
     length rd = length cd \<and> list_all (\<lambda>d. 1 \<le> d) (rd @ cd)
     \<and> prod_list rd = int (fst (rho_dims operand))
     \<and> prod_list cd = int (snd (rho_dims operand))"

text \<open>
  Modelled from the spec: the engine \<^verbatim>\<open>permute(operand, permutation, dims, row_only)\<close>.
  Dimensions that do not account for the size of the operand fail with
  \<^verbatim>\<open>InvalidDimensionError\<close>; a permutation that is no bijection on
  \<open>1, ..., num_subsystems\<close> fails with \<^verbatim>\<open>InvalidPermutationError\<close>.  Otherwise
  the rows are reordered by the table of the row dimensions and, unless
  \<^verbatim>\<open>row_only\<close> is set, the columns by the table of the column dimensions.  A
  vector has one index space, which is reordered by the table of its own
  dimensions whatever the flag is.  The result has the rank and shape of the
  operand.
\<close>

definition permute_systems ::
  "'a ndarray \<Rightarrow> int list \<Rightarrow> dim_array \<Rightarrow> bool \<Rightarrow> error + 'a ndarray" where
  "permute_systems operand permutation dims row_only =
     (case engine_dims operand dims of
        None \<Rightarrow> Inl InvalidDimensionError
      | Some (rd, cd) \<Rightarrow>
          if \<not> dims_accepted operand rd cd then Inl InvalidDimensionError
          else if sort permutation \<noteq> [1..int (length rd)] then Inl InvalidPermutationError
          else
            let row_table = lookup_table permutation (map nat rd);
                col_table = lookup_table permutation (map nat cd)
            in Inr (case operand of
                      Arr1 xs \<Rightarrow> Arr1 (gather xs col_table)
                    | Arr2 r c rows \<Rightarrow>
                        Arr2 r c (if row_only then gather rows row_table
                                  else map (\<lambda>row. gather row col_table) (gather rows row_table))))"

text \<open>
  Digits that are valid for a list of dimensions, and the entry of the lookup table
  of the reversal of all subsystems.
\<close>

definition valid_digits :: "nat list \<Rightarrow> nat list \<Rightarrow> bool" where
  "valid_digits ds es = list_all2 (\<lambda>e d. e < d) es ds"

definition reversal_index :: "nat list \<Rightarrow> nat \<Rightarrow> nat" where
  "reversal_index ds out = undigits ds (rev (digits (rev ds) out))"

section \<open>is\_psd\<close>

text \<open>
  Modelled from the spec: \<^verbatim>\<open>is_square\<close> of \<^verbatim>\<open>toqito/matrix/properties/is_square.py\<close>,
  which \<^verbatim>\<open>is_psd\<close> imports and whose source is not part of the development.  The
  specification says that a non-square matrix is no error for the check of positive
  semidefiniteness, which then reports false: \<^verbatim>\<open>is_square\<close> returns whether the
  row count of a matrix equals its column count, and does not raise on a matrix.  A
  rank-one array is not a square matrix.
\<close>

definition is_square :: "'a ndarray \<Rightarrow> bool" where
  "is_square mat = (case mat of Arr1 xs \<Rightarrow> False | Arr2 r c rows \<Rightarrow> r = c)"

text \<open>
  \<^verbatim>\<open>is_psd(mat, tol)\<close> of \<^verbatim>\<open>toqito/matrix/properties/is_psd.py\<close>.  The eigenvalue
  routine \<^verbatim>\<open>np.linalg.eigvalsh\<close> of the numerical library is the first argument;
  eigenvalues and the tolerance are real numbers.
\<close>

definition is_psd :: "(real ndarray \<Rightarrow> real list) \<Rightarrow> real ndarray \<Rightarrow> real \<Rightarrow> bool" where
  "is_psd eigvalsh mat tol =
     (if \<not> is_square mat then False
      else list_all (\<lambda>ev. - tol < ev) (eigvalsh mat))"

text \<open>The default \<^verbatim>\<open>tol = 1e-8\<close>.\<close>

definition default_tol :: real where
  "default_tol = 1 / 10 ^ 8"

text \<open>
  What is assumed of the eigenvalue routine on a two-by-two matrix
  \<open>[[a, b], [c, d]]\<close>: the eigenvalues are the roots of the characteristic
  polynomial, every returned value lies within \<open>\<delta>\<close> of an eigenvalue, and every
  eigenvalue has a returned value within \<open>\<delta>\<close> of it.
\<close>

definition eigenvalue_2x2 :: "real \<Rightarrow> real \<Rightarrow> real \<Rightarrow> real \<Rightarrow> real \<Rightarrow> bool" where
  "eigenvalue_2x2 a b c d x \<longleftrightarrow> (a - x) * (d - x) - b * c = 0"

definition approximates_spectrum :: "real list \<Rightarrow> (real \<Rightarrow> bool) \<Rightarrow> real \<Rightarrow> bool" where
  "approximates_spectrum evs is_ev \<delta> \<longleftrightarrow>
     (\<forall>e \<in> set evs. \<exists>x. is_ev x \<and> \<bar>e - x\<bar> < \<delta>) \<and>
     (\<forall>x. is_ev x \<longrightarrow> (\<exists>e \<in> set evs. \<bar>e - x\<bar> < \<delta>))"

text \<open>The two matrices of the documentation of \<^verbatim>\<open>is_psd\<close>.\<close>

definition mat_A :: "real ndarray" where
  "mat_A = Arr2 2 2 [[1, -1], [-1, 1]]"

definition mat_B :: "real ndarray" where
  "mat_B = Arr2 2 2 [[-1, -1], [-1, -1]]"

section \<open>pusey\_barret\_rudolph\<close>

text \<open>The shape of an array.\<close>

fun shape :: "'a ndarray \<Rightarrow> nat list" where
  "shape (Arr1 xs) = [length xs]"
| "shape (Arr2 r c rows) = [r, c]"

text \<open>A column vector of dimension \<open>k\<close>: a well-formed array of shape \<open>(k, 1)\<close>.\<close>

definition column_vector :: "nat \<Rightarrow> 'a ndarray \<Rightarrow> bool" where
  "column_vector k x \<longleftrightarrow> shape x = [k, 1] \<and> wf_array x"

text \<open>
  Modelled from the spec: \<^verbatim>\<open>standard_basis\<close> of \<^verbatim>\<open>toqito.matrices\<close>, whose source
  is not part of the development.  The documentation of \<^verbatim>\<open>pusey_barret_rudolph\<close>
  names its two results \<open>|0\<rangle>\<close> and \<open>|1\<rangle>\<close> and prints the states for \<open>n = 1\<close> as
  arrays of shape \<open>(2, 1)\<close>: \<^verbatim>\<open>standard_basis(d)\<close> is the list of the \<open>d\<close> unit
  column vectors of dimension \<open>d\<close>.
\<close>

definition standard_basis :: "nat \<Rightarrow> real ndarray list" where
  "standard_basis d =
     map (\<lambda>i. Arr2 d 1 (map (\<lambda>j. [if j = i then 1 else 0]) [0..<d])) [0..<d]"

text \<open>
  The operations of the array library on arrays of equal shape: the product with a
  scalar, the sum and the difference, all elementwise.  (On arrays of different
  shapes the library broadcasts or raises; the function below only adds and
  subtracts arrays of one shape.)
\<close>

fun smult :: "real \<Rightarrow> real ndarray \<Rightarrow> real ndarray" where
  "smult a (Arr1 xs) = Arr1 (map (\<lambda>x. a * x) xs)"
| "smult a (Arr2 r c rows) = Arr2 r c (map (map (\<lambda>x. a * x)) rows)"

fun np_add :: "real ndarray \<Rightarrow> real ndarray \<Rightarrow> real ndarray" where
  "np_add (Arr2 r c rows) (Arr2 r' c' rows') = Arr2 r c (map2 (map2 (+)) rows rows')"
| "np_add (Arr1 xs) (Arr1 ys) = Arr1 (map2 (+) xs ys)"
| "np_add x y = x"

fun np_sub :: "real ndarray \<Rightarrow> real ndarray \<Rightarrow> real ndarray" where
  "np_sub (Arr2 r c rows) (Arr2 r' c' rows') = Arr2 r c (map2 (map2 (-)) rows rows')"
| "np_sub (Arr1 xs) (Arr1 ys) = Arr1 (map2 (-) xs ys)"
| "np_sub x y = x"

text \<open>
  Modelled from the spec: \<^verbatim>\<open>tensor\<close> of \<^verbatim>\<open>toqito.matrix_ops\<close>, whose source is not
  part of the development.  The specification counts the general tensor (Kronecker)
  product among the given primitives: \<^verbatim>\<open>tensor\<close> of a list of arrays is their
  Kronecker product, from left to right.  The Kronecker product of two matrices
  replaces every entry \<open>a\<close> of the first by the block \<open>a * B\<close>; an array of
  rank one counts as a single row.  The specification does not say what the product
  of no factors is; the model takes the unit \<open>[[1]]\<close> of the Kronecker product.
\<close>

definition kron_rows :: "real list list \<Rightarrow> real list list \<Rightarrow> real list list" where
  "kron_rows A B =
     concat (map (\<lambda>ra. map (\<lambda>rb. concat (map (\<lambda>a. map (\<lambda>b. a * b) rb) ra)) B) A)"

fun kron :: "real ndarray \<Rightarrow> real ndarray \<Rightarrow> real ndarray" where
  "kron (Arr2 r c A) (Arr2 r' c' B) = Arr2 (r * r') (c * c') (kron_rows A B)"
| "kron (Arr1 a) (Arr1 b) = Arr1 (concat (map (\<lambda>x. map (\<lambda>y. x * y) b) a))"
| "kron (Arr1 a) (Arr2 r' c' B) = Arr2 r' (length a * c') (kron_rows [a] B)"
| "kron (Arr2 r c A) (Arr1 b) = Arr2 r (c * length b) (kron_rows A [b])"

fun tensor :: "real ndarray list \<Rightarrow> real ndarray" where
  "tensor [] = Arr2 1 1 [[1]]"
| "tensor (x # xs) = foldl kron x xs"

text \<open>
  \<^verbatim>\<open>pusey_barret_rudolph(n, theta)\<close> of \<^verbatim>\<open>toqito/states/pusey_barret_rudolph.py\<close>.
  \<^verbatim>\<open>itertools.product([0, 1], repeat=n)\<close> is \<^const>\<open>product_lists\<close> of \<open>n\<close> copies
  of \<open>[0, 1]\<close>: both let the last position vary fastest.  The two iterations that
  append to the lists \<^verbatim>\<open>state\<close> and \<^verbatim>\<open>states\<close> are maps.  The number \<open>n\<close> is a
  natural number (a negative \<^verbatim>\<open>repeat\<close> raises in the source), and the angle and
  the entries are real numbers.
\<close>

definition pusey_barret_rudolph :: "nat \<Rightarrow> real \<Rightarrow> real ndarray list" where
  "pusey_barret_rudolph n theta =
     (let e_0 = standard_basis 2 ! 0;
          e_1 = standard_basis 2 ! 1;
          psi_0 = np_add (smult (cos (theta / 2)) e_0) (smult (sin (theta / 2)) e_1);
          psi_1 = np_sub (smult (cos (theta / 2)) e_0) (smult (sin (theta / 2)) e_1);
          psi = [psi_0, psi_1];
          binary_strings = product_lists (replicate n [0, 1])
      in map (\<lambda>b_str. tensor (map (\<lambda>b. psi ! b) b_str)) binary_strings)"

text \<open>
  The words of the claim about these states.  \<open>binary_string n i\<close> is the
  \<open>i\<close>-th binary string of length \<open>n\<close> in lexicographic order, counted
  from 0: the \<open>n\<close> binary digits of \<open>i\<close>, the most significant first.
  \<open>psi_state theta b\<close> is \<open>cos (theta / 2) |0\<rangle> + sin (theta / 2) |1\<rangle>\<close> for
  \<open>b = 0\<close> and \<open>cos (theta / 2) |0\<rangle> - sin (theta / 2) |1\<rangle>\<close> otherwise.
\<close>

fun binary_string :: "nat \<Rightarrow> nat \<Rightarrow> nat list" where
  "binary_string 0 i = []"
| "binary_string (Suc n) i = (i div 2 ^ n) mod 2 # binary_string n (i mod 2 ^ n)"

definition psi_state :: "real \<Rightarrow> nat \<Rightarrow> real ndarray" where
  "psi_state theta b =
     (if b = 0 then Arr2 2 1 [[cos (theta / 2)], [sin (theta / 2)]]
      else Arr2 2 1 [[cos (theta / 2)], [- sin (theta / 2)]])"

section \<open>Properties of swap\<close>

text \<open>
  C1 (the code departs from the claim).  The claim: for a valid selector
  \<open>sys = (a, b)\<close>, \<^verbatim>\<open>swap\<close> passes to the permutation engine the transposition of
  \<open>a\<close> and \<open>b\<close> in the identity ordering of the \<open>num_subsystems\<close> slots.
  Evaluated on three subsystems of dimension 2 and \<open>sys = [1, 2]\<close>: the engine
  is called with the reversal \<open>[3, 2, 1]\<close>, whereas the transposition of 1 and 2
  is \<open>[2, 1, 3]\<close>.
\<close>

theorem swap_passes_reversal_on_three_subsystems:
  "swap P rho (Some [1, 2]) (DimArr (Dim1D [2, 2, 2])) ro = P rho [3, 2, 1] (Dim1D [2, 2, 2]) ro
   \<and> transposition_perm 3 1 2 = [2, 1, 3]"
  by (simp add: swap_def swap_dim_def py_any_def transposition_perm_def upto_rec1)

text \<open>
  C2 (the code departs from the claim).  The claim: a two-element selector with an
  entry outside \<open>[1, num_subsystems]\<close> makes \<^verbatim>\<open>swap\<close> fail with the selector
  error.  Evaluated on two subsystems and \<open>sys = [3, 4]\<close>: no error is raised by
  \<^verbatim>\<open>swap\<close>, the engine is called with the permutation \<open>[2, 1]\<close>.
\<close>

theorem swap_accepts_selector_out_of_range:
  "swap P rho (Some [3, 4]) (DimArr (Dim1D [2, 2])) ro = P rho [2, 1] (Dim1D [2, 2]) ro"
  by (simp add: swap_def swap_dim_def py_any_def upto_rec1)

text \<open>
  The tolerance of the divisibility test and exact divisibility: when \<open>d\<close> does
  not divide the row count or does not divide the column count, and
  \<open>rows * cols * |d|\<close> is at most \<open>2\<^sup>5\<^sup>1\<close>, the distances from the
  nearest integers add up to at least \<open>2 * rows * cols * eps\<close>.
\<close>

lemma not_dividing_distance:
  fixes d n :: int and r :: nat
  assumes d: "d \<noteq> 0" and nd: "\<not> d dvd int r"
  shows "1 / of_int \<bar>d\<bar> \<le> \<bar>(of_nat r / of_int d :: rat) - of_int n\<bar>"
proof -
  have "int r - n * d \<noteq> 0"
  proof
    assume "int r - n * d = 0"
    then have "int r = d * n" by (simp add: mult.commute)
    then have "d dvd int r" by (rule dvdI)
    with nd show False by simp
  qed
  then have "1 \<le> \<bar>int r - n * d\<bar>" by linarith
  then have one: "(1::rat) \<le> of_int \<bar>int r - n * d\<bar>"
    by (simp only: of_int_1_le_iff)
  have "(of_nat r / of_int d :: rat) - of_int n = of_int (int r - n * d) / of_int d"
    using d by (simp add: field_simps)
  then have "\<bar>(of_nat r / of_int d :: rat) - of_int n\<bar> = of_int \<bar>int r - n * d\<bar> / of_int \<bar>d\<bar>"
    by (simp only: abs_divide of_int_abs)
  moreover have "(0::rat) < of_int \<bar>d\<bar>" using d by simp
  ultimately show ?thesis using one by (simp add: divide_right_mono)
qed

lemma not_dividing_exceeds_tolerance:
  fixes d :: int and r c :: nat
  assumes d: "d \<noteq> 0" and nd: "\<not> (d dvd int r \<and> d dvd int c)"
    and small: "int (r * c) * \<bar>d\<bar> \<le> 2 ^ 51"
  shows "2 * of_nat (r * c) * eps
           \<le> \<bar>of_nat r / of_int d - of_int (np_round (of_nat r / of_int d))\<bar>
             + \<bar>of_nat c / of_int d - of_int (np_round (of_nat c / of_int d))\<bar>"
proof -
  have pos: "(0::rat) < of_int \<bar>d\<bar>" using d by simp
  from small have "(of_int (int (r * c) * \<bar>d\<bar>) :: rat) \<le> of_int (2 ^ 51)"
    by (simp only: of_int_le_iff)
  then have "(of_nat (r * c) :: rat) * of_int \<bar>d\<bar> \<le> 2 ^ 51" by simp
  then have "(of_nat (r * c) :: rat) \<le> 2 ^ 51 / of_int \<bar>d\<bar>"
    using pos by (simp add: pos_le_divide_eq)
  then have tol: "2 * of_nat (r * c) * eps \<le> 1 / of_int \<bar>d\<bar>"
    by (simp add: eps_def field_simps)
  from nd show ?thesis
  proof (rule de_Morgan_conj [THEN iffD1, THEN disjE])
    assume "\<not> d dvd int r"
    from not_dividing_distance [OF d this, of "np_round (of_nat r / of_int d)"] tol
    show ?thesis by linarith
  next
    assume "\<not> d dvd int c"
    from not_dividing_distance [OF d this, of "np_round (of_nat c / of_int d)"] tol
    show ?thesis by linarith
  qed
qed

text \<open>
  C4.  When \<^verbatim>\<open>dim\<close> is a single non-zero integer \<open>d\<close> and the distances of
  \<open>rows / d\<close> and \<open>cols / d\<close> from their nearest integers add up to at least
  \<open>2 * rows * cols * eps\<close> (\<open>d\<close> does not evenly divide the row count and the
  column count, up to the tolerance), \<^verbatim>\<open>swap\<close> fails with the \<^verbatim>\<open>InvalidDim\<close>
  error, whatever the selector, the flag and the engine are.  By lemma
  \<open>not_dividing_exceeds_tolerance\<close> this covers every \<open>d\<close> that fails to
  divide the row count or the column count of an operand of moderate size.
\<close>

theorem swap_int_dim_not_dividing:
  assumes "d \<noteq> 0" and "rho_dims rho = (r, c)"
    and "2 * of_nat (r * c) * eps
           \<le> \<bar>of_nat r / of_int d - of_int (np_round (of_nat r / of_int d))\<bar>
             + \<bar>of_nat c / of_int d - of_int (np_round (of_nat c / of_int d))\<bar>"
  shows "swap P rho sys (DimInt d) ro = Inl InvalidDim_divide
         \<and> is_InvalidDimensionError InvalidDim_divide"
  using assms by (simp add: swap_def swap_dim_def Let_def)

text \<open>The concrete case of C4: an operand of shape 3 by 3 and \<open>dim = 2\<close>.\<close>

theorem swap_int_dim_not_dividing_witness:
  "swap (\<lambda>rho perm d ro. Inr rho) (Arr2 3 3 [[1, 2, 3], [4, 5, 6], [7, 8, 9 :: int]])
      None (DimInt 2) False = Inl InvalidDim_divide
   \<and> is_InvalidDimensionError InvalidDim_divide"
proof -
  have d: "(2::int) \<noteq> 0" by simp
  have sh: "rho_dims (Arr2 3 3 [[1, 2, 3], [4, 5, 6], [7, 8, 9 :: int]]) = (3, 3)"
    by (simp add: rho_dims_def)
  have tol: "2 * of_nat (3 * 3) * eps
     \<le> \<bar>of_nat 3 / of_int 2 - of_int (np_round (of_nat 3 / of_int 2))\<bar>
       + \<bar>of_nat 3 / of_int 2 - of_int (np_round (of_nat 3 / of_int 2))\<bar>"
    by code_simp
  show ?thesis by (rule swap_int_dim_not_dividing [OF d sh tol])
qed

text \<open>
  C8 as stated fails: the \<^verbatim>\<open>dim\<close> argument is checked before the selector, so
  an operand of shape 3 by 3 with \<open>dim = 2\<close> and \<open>sys = [1]\<close> fails with the
  \<^verbatim>\<open>InvalidDim\<close> error, which is no selector error.
\<close>

theorem swap_one_element_selector_counterexample:
  "swap (\<lambda>rho perm d ro. Inr rho) (Arr2 3 3 [[1, 2, 3], [4, 5, 6], [7, 8, 9 :: int]])
      (Some [1]) (DimInt 2) False = Inl InvalidDim_divide
   \<and> \<not> is_InvalidSubsystemSelectorError InvalidDim_divide"
  by code_simp

text \<open>
  C8, amended.  For every operand and every \<^verbatim>\<open>dim\<close> that \<^verbatim>\<open>swap\<close> accepts (the
  first part of the body raises nothing), a selector of exactly one element makes
  \<^verbatim>\<open>swap\<close> fail with a selector error.
\<close>

theorem swap_one_element_selector:
  assumes "swap_dim rho dim_in = Inr dn" and "length sys = 1"
  shows "\<exists>e. swap P rho (Some sys) dim_in ro = Inl e \<and> is_InvalidSubsystemSelectorError e"
  using assms by (cases dn) (simp add: swap_def)

theorem swap_one_element_selector_witness:
  "swap_dim (Arr2 4 4 [[1, 2, 3, 4], [5, 6, 7, 8], [9, 10, 11, 12], [13, 14, 15, 16 :: int]])
       (DimArr (Dim1D [2, 2])) = Inr (Dim1D [2, 2], 2)
   \<and> (\<exists>e. swap (\<lambda>rho perm d ro. Inr rho)
            (Arr2 4 4 [[1, 2, 3, 4], [5, 6, 7, 8], [9, 10, 11, 12], [13, 14, 15, 16 :: int]])
            (Some [1]) (DimArr (Dim1D [2, 2])) False = Inl e
          \<and> is_InvalidSubsystemSelectorError e)"
proof -
  let ?rho = "Arr2 4 4 [[1, 2, 3, 4], [5, 6, 7, 8], [9, 10, 11, 12], [13, 14, 15, 16 :: int]]"
  have h: "swap_dim ?rho (DimArr (Dim1D [2, 2])) = Inr (Dim1D [2, 2], 2)"
    by (simp add: swap_dim_def rho_dims_def)
  have l: "length [1 :: int] = 1" by simp
  show ?thesis using h swap_one_element_selector [OF h l] by blast
qed

text \<open>
  C9.  For a fixed engine, operand, \<^verbatim>\<open>dim\<close> and flag, any two selectors of two
  elements that the bounds check accepts give the same result.  The bounds check
  accepts a selector only if \<^verbatim>\<open>any(sys)\<close> is true, which is the hypothesis used.
\<close>

theorem swap_independent_of_selector:
  assumes "length sys1 = 2" and "length sys2 = 2" and "py_any sys1" and "py_any sys2"
  shows "swap P rho (Some sys1) dim_in ro = swap P rho (Some sys2) dim_in ro"
  using assms by (simp add: swap_def split: sum.splits)

theorem swap_independent_of_selector_witness:
  "swap (\<lambda>rho perm d ro. Inr (Arr1 (map (\<lambda>p. nat p) perm))) (Arr1 [0, 1, 2, 3, 4, 5, 6, 7 :: nat])
        (Some [1, 2]) (DimArr (Dim1D [2, 2, 2])) False
   = swap (\<lambda>rho perm d ro. Inr (Arr1 (map (\<lambda>p. nat p) perm))) (Arr1 [0, 1, 2, 3, 4, 5, 6, 7 :: nat])
        (Some [2, 3]) (DimArr (Dim1D [2, 2, 2])) False"
proof -
  have a: "length [1, 2 :: int] = 2" and b: "length [2, 3 :: int] = 2" by simp_all
  have c: "py_any [1, 2]" and d: "py_any [2, 3]" by (simp_all add: py_any_def)
  show ?thesis by (rule swap_independent_of_selector [OF a b c d])
qed

section \<open>Properties of is\_psd\<close>

lemma eigenvalues_mat_A: "eigenvalue_2x2 1 (-1) (-1) 1 x \<longleftrightarrow> x = 0 \<or> x = 2"
proof -
  have "(1 - x) * (1 - x) - (-1) * (-1) = x * (x - 2)" by (simp add: algebra_simps)
  then show ?thesis by (simp add: eigenvalue_2x2_def)
qed

lemma eigenvalues_mat_B: "eigenvalue_2x2 (-1) (-1) (-1) (-1) x \<longleftrightarrow> x = 0 \<or> x = -2"
proof -
  have "(-1 - x) * (-1 - x) - (-1) * (-1) = x * (x + 2)" by (simp add: algebra_simps)
  moreover have "x + 2 = 0 \<longleftrightarrow> x = -2" by linarith
  ultimately show ?thesis by (simp add: eigenvalue_2x2_def)
qed

text \<open>
  C6.  On a matrix whose row count differs from its column count, \<^verbatim>\<open>is_psd\<close>
  returns \<^verbatim>\<open>False\<close>: the model has no error value, and the eigenvalue routine is
  not reached.
\<close>

theorem is_psd_non_square:
  "r \<noteq> c \<Longrightarrow> is_psd eigvalsh (Arr2 r c rows) tol = False"
  by (simp add: is_psd_def is_square_def)

theorem is_psd_non_square_witness:
  "(2::nat) \<noteq> 3 \<and> is_psd (\<lambda>m. []) (Arr2 2 3 [[1, 2, 3], [4, 5, 6]]) default_tol = False"
  using is_psd_non_square [of 2 3 "\<lambda>m. []" "[[1, 2, 3], [4, 5, 6]]" default_tol] by simp

text \<open>
  C7.  With an eigenvalue routine that is accurate to within the tolerance on the
  two matrices, \<^verbatim>\<open>is_psd\<close> at the default tolerance returns \<^verbatim>\<open>True\<close> on
  \<open>A = [[1, -1], [-1, 1]]\<close> and \<^verbatim>\<open>False\<close> on \<open>B = [[-1, -1], [-1, -1]]\<close>.
\<close>

theorem is_psd_examples:
  assumes A: "approximates_spectrum (eigvalsh mat_A) (eigenvalue_2x2 1 (-1) (-1) 1) default_tol"
      and B: "approximates_spectrum (eigvalsh mat_B) (eigenvalue_2x2 (-1) (-1) (-1) (-1)) default_tol"
  shows "is_psd eigvalsh mat_A default_tol \<and> \<not> is_psd eigvalsh mat_B default_tol"
proof
  have "- default_tol < e" if "e \<in> set (eigvalsh mat_A)" for e
  proof -
    from A that obtain x where "eigenvalue_2x2 1 (-1) (-1) 1 x" and d: "\<bar>e - x\<bar> < default_tol"
      unfolding approximates_spectrum_def by blast
    then have "0 \<le> x" by (auto simp: eigenvalues_mat_A)
    with d show ?thesis by linarith
  qed
  then show "is_psd eigvalsh mat_A default_tol"
    by (simp add: is_psd_def is_square_def mat_A_def list_all_iff)
next
  have "eigenvalue_2x2 (-1) (-1) (-1) (-1) (-2)" by (simp add: eigenvalues_mat_B)
  with B obtain e where e: "e \<in> set (eigvalsh mat_B)" and d: "\<bar>e - (-2)\<bar> < default_tol"
    unfolding approximates_spectrum_def by blast
  have "default_tol < 1" by (simp add: default_tol_def)
  with d have "\<not> - default_tol < e" by linarith
  with e show "\<not> is_psd eigvalsh mat_B default_tol"
    by (auto simp: is_psd_def list_all_iff)
qed

theorem is_psd_examples_witness:
  "is_psd (\<lambda>m. if m = mat_A then [0, 2] else [-2, 0]) mat_A default_tol
   \<and> \<not> is_psd (\<lambda>m. if m = mat_A then [0, 2] else [-2, 0]) mat_B default_tol"
proof -
  let ?f = "\<lambda>m. if m = mat_A then [0, 2] else [-2, 0::real]"
  have ne: "mat_B \<noteq> mat_A" by (simp add: mat_A_def mat_B_def)
  have pos: "(0::real) < default_tol" by (simp add: default_tol_def)
  have A: "approximates_spectrum (?f mat_A) (eigenvalue_2x2 1 (-1) (-1) 1) default_tol"
    using pos by (auto simp: approximates_spectrum_def eigenvalues_mat_A)
  have B: "approximates_spectrum (?f mat_B) (eigenvalue_2x2 (-1) (-1) (-1) (-1)) default_tol"
    using pos ne by (auto simp: approximates_spectrum_def eigenvalues_mat_B)
  show ?thesis using is_psd_examples [of ?f, OF A B] .
qed

section \<open>Properties of pusey\_barret\_rudolph\<close>

lemma length_product_lists_bits: "length (product_lists (replicate n [0, 1::nat])) = 2 ^ n"
  by (induction n) simp_all

lemma product_lists_bits_nth:
  "i < 2 ^ n \<Longrightarrow> product_lists (replicate n [0, 1::nat]) ! i = binary_string n i"
proof (induction n arbitrary: i)
  case 0
  then show ?case by simp
next
  case (Suc n)
  let ?P = "product_lists (replicate n [0, 1::nat])"
  have len: "length ?P = 2 ^ n" by (rule length_product_lists_bits)
  show ?case
  proof (cases "i < 2 ^ n")
    case True
    then show ?thesis using Suc.IH [of i] len by (simp add: nth_append)
  next
    case False
    with Suc.prems have lt: "i - 2 ^ n < 2 ^ n" by simp
    from False Suc.prems have d: "i div 2 ^ n = 1"
      by (simp add: div_nat_eqI)
    from False lt have m: "i mod 2 ^ n = i - 2 ^ n"
      by (metis le_mod_geq mod_less not_less)
    show ?thesis using False Suc.IH [OF lt] len d m lt by (simp add: nth_append)
  qed
qed

lemma psi_simps:
  "np_add (smult c (standard_basis 2 ! 0)) (smult s (standard_basis 2 ! 1)) = Arr2 2 1 [[c], [s]]"
  "np_sub (smult c (standard_basis 2 ! 0)) (smult s (standard_basis 2 ! 1)) = Arr2 2 1 [[c], [- s]]"
  by (simp_all add: standard_basis_def upt_rec)


lemma length_kron_rows: "length (kron_rows A B) = length A * length B"
  by (induction A) (simp_all add: kron_rows_def)

lemma length_kron_row:
  "length (concat (map (\<lambda>a. map (\<lambda>b. a * b) rb) ra)) = length ra * length rb"
  by (induction ra) simp_all

lemma kron_rows_widths:
  assumes "\<forall>ra \<in> set A. length ra = c" and "\<forall>rb \<in> set B. length rb = c'"
  shows "\<forall>row \<in> set (kron_rows A B). length row = c * c'"
  using assms by (auto simp: kron_rows_def length_kron_row)

lemma wf_kron:
  assumes "wf_array (Arr2 r c A)" and "wf_array (Arr2 r' c' B)"
  shows "wf_array (kron (Arr2 r c A) (Arr2 r' c' B))"
  using assms kron_rows_widths [of A c B c']
  by (simp add: length_kron_rows list_all_iff)

lemma column_vector_kron:
  assumes "column_vector k x" and "column_vector m y"
  shows "column_vector (k * m) (kron x y)"
proof -
  from assms obtain A B where x: "x = Arr2 k 1 A" and y: "y = Arr2 m 1 B"
    by (cases x; cases y) (auto simp: column_vector_def)
  with assms have "wf_array (kron x y)"
    unfolding column_vector_def using wf_kron by blast
  then show ?thesis by (simp add: x y column_vector_def)
qed

lemma column_vector_foldl_kron:
  assumes "column_vector k acc" and "\<forall>x \<in> set xs. column_vector 2 x"
  shows "column_vector (k * 2 ^ length xs) (foldl kron acc xs)"
  using assms
proof (induction xs arbitrary: k acc)
  case Nil
  then show ?case by simp
next
  case (Cons x xs)
  from Cons.prems have "column_vector (k * 2) (kron acc x)"
    by (simp add: column_vector_kron)
  from Cons.IH [OF this] Cons.prems show ?case by (simp add: mult.assoc)
qed

lemma column_vector_tensor:
  assumes "xs \<noteq> []" and "\<forall>x \<in> set xs. column_vector 2 x"
  shows "column_vector (2 ^ length xs) (tensor xs)"
proof -
  from assms obtain y ys where xs: "xs = y # ys" by (cases xs) auto
  with assms have "column_vector (2 * 2 ^ length ys) (foldl kron y ys)"
    by (intro column_vector_foldl_kron) auto
  then show ?thesis by (simp add: xs)
qed

lemma length_binary_string: "length (binary_string n i) = n"
  by (induction n arbitrary: i) simp_all

lemma binary_string_bits: "b \<in> set (binary_string n i) \<Longrightarrow> b < 2"
  by (induction n arbitrary: i) auto

lemma column_vector_psi_state: "column_vector 2 (psi_state theta b)"
  by (simp add: psi_state_def column_vector_def)

lemma psi_nth:
  "b < 2 \<Longrightarrow> [psi_state theta 0, psi_state theta 1] ! b = psi_state theta b"
  by (cases b) (simp_all add: psi_state_def)

lemma pusey_barret_rudolph_unfold:
  "pusey_barret_rudolph n theta =
     map (\<lambda>b_str. tensor (map (\<lambda>b. [psi_state theta 0, psi_state theta 1] ! b) b_str))
       (product_lists (replicate n [0, 1]))"
  unfolding pusey_barret_rudolph_def Let_def psi_simps psi_state_def by simp

text \<open>
  The binary strings are listed in lexicographic order: a smaller index gives a
  string that is smaller in the lexicographic order of the digits.
\<close>

lemma binary_string_lexord:
  "i < j \<Longrightarrow> j < 2 ^ n \<Longrightarrow>
     (binary_string n i, binary_string n j) \<in> lexord {(a, b). a < b}"
proof (induction n arbitrary: i j)
  case 0
  then show ?case by simp
next
  case (Suc n)
  have le: "i div 2 ^ n \<le> j div 2 ^ n"
    using Suc.prems(1) by (simp add: div_le_mono)
  have j1: "j div 2 ^ n < 2"
    using Suc.prems(2) by (simp add: less_mult_imp_div_less)
  show ?case
  proof (cases "i div 2 ^ n = j div 2 ^ n")
    case True
    have "i mod 2 ^ n < j mod 2 ^ n"
    proof -
      have "i = 2 ^ n * (j div 2 ^ n) + i mod 2 ^ n"
        using True by (metis mult_div_mod_eq)
      moreover have "j = 2 ^ n * (j div 2 ^ n) + j mod 2 ^ n"
        by (metis mult_div_mod_eq)
      ultimately show ?thesis using Suc.prems(1) by linarith
    qed
    from Suc.IH [OF this] True show ?thesis by simp
  next
    case False
    with le j1 have "i div 2 ^ n mod 2 < j div 2 ^ n mod 2" by simp
    then show ?thesis by simp
  qed
qed

text \<open>
  C10.  For \<open>n \<ge> 1\<close> and every angle, \<^verbatim>\<open>pusey_barret_rudolph(n, theta)\<close> is
  a list of \<open>2\<^sup>n\<close> states; the state at index \<open>i\<close> is the tensor product of
  the states \<open>psi\<close> selected by the digits of the \<open>i\<close>-th binary string of
  length \<open>n\<close>, and it is a column vector of dimension \<open>2\<^sup>n\<close>.
\<close>

theorem pusey_barret_rudolph_states:
  assumes "1 \<le> n" and i: "i < 2 ^ n"
  shows "length (pusey_barret_rudolph n theta) = 2 ^ n
    \<and> pusey_barret_rudolph n theta ! i = tensor (map (psi_state theta) (binary_string n i))
    \<and> column_vector (2 ^ n) (pusey_barret_rudolph n theta ! i)"
proof (intro conjI)
  show len: "length (pusey_barret_rudolph n theta) = 2 ^ n"
    by (simp only: pusey_barret_rudolph_unfold length_map length_product_lists_bits)
  have psi: "map (\<lambda>b. [psi_state theta 0, psi_state theta 1] ! b) (binary_string n i)
      = map (psi_state theta) (binary_string n i)"
    by (rule map_cong) (simp_all only: psi_nth binary_string_bits)
  show eq: "pusey_barret_rudolph n theta ! i
      = tensor (map (psi_state theta) (binary_string n i))"
    using i psi
    by (simp only: pusey_barret_rudolph_unfold nth_map length_product_lists_bits
        product_lists_bits_nth)
  have ne: "map (psi_state theta) (binary_string n i) \<noteq> []"
    using assms length_binary_string [of n i] by (cases "binary_string n i") auto
  have "column_vector (2 ^ length (map (psi_state theta) (binary_string n i)))
      (tensor (map (psi_state theta) (binary_string n i)))"
    by (rule column_vector_tensor [OF ne]) (simp add: column_vector_psi_state)
  then show "column_vector (2 ^ n) (pusey_barret_rudolph n theta ! i)"
    by (simp add: eq length_binary_string)
qed

theorem pusey_barret_rudolph_states_witness:
  "length (pusey_barret_rudolph 2 0) = 2 ^ 2
    \<and> pusey_barret_rudolph 2 0 ! 3 = tensor (map (psi_state 0) (binary_string 2 3))
    \<and> column_vector (2 ^ 2) (pusey_barret_rudolph 2 0 ! 3)"
proof -
  have n: "(1::nat) \<le> 2" by simp
  have i: "(3::nat) < 2 ^ 2" by simp
  show ?thesis by (rule pusey_barret_rudolph_states [OF n i])
qed

section \<open>Properties of the permutation engine\<close>

lemma valid_digits_digits: "i < prod_list ds \<Longrightarrow> valid_digits ds (digits ds i)"
proof (induction ds arbitrary: i)
  case Nil
  then show ?case by (simp add: valid_digits_def)
next
  case (Cons d ds)
  from Cons.prems have pos: "0 < prod_list ds" by (cases "prod_list ds = 0") auto
  from Cons.prems have "i div prod_list ds < d"
    by (simp add: less_mult_imp_div_less)
  moreover have "valid_digits ds (digits ds (i mod prod_list ds))"
    using pos by (intro Cons.IH) simp
  ultimately show ?case by (simp add: valid_digits_def)
qed

lemma undigits_digits: "i < prod_list ds \<Longrightarrow> undigits ds (digits ds i) = i"
proof (induction ds arbitrary: i)
  case Nil
  then show ?case by simp
next
  case (Cons d ds)
  from Cons.prems have pos: "0 < prod_list ds" by (cases "prod_list ds = 0") auto
  then have "undigits ds (digits ds (i mod prod_list ds)) = i mod prod_list ds"
    by (intro Cons.IH) simp
  then show ?case by simp
qed

lemma undigits_less: "valid_digits ds es \<Longrightarrow> undigits ds es < prod_list ds"
proof (induction ds arbitrary: es)
  case Nil
  then show ?case by (simp add: valid_digits_def)
next
  case (Cons d ds)
  from Cons.prems obtain e es' where es: "es = e # es'" and e: "e < d"
    and v: "valid_digits ds es'"
    by (auto simp: valid_digits_def list_all2_Cons2)
  from Cons.IH [OF v] have u: "undigits ds es' < prod_list ds" .
  from e have "Suc e \<le> d" by simp
  then have "Suc e * prod_list ds \<le> d * prod_list ds" by (rule mult_le_mono1)
  with u show ?case by (simp add: es)
qed

lemma digits_undigits: "valid_digits ds es \<Longrightarrow> digits ds (undigits ds es) = es"
proof (induction ds arbitrary: es)
  case Nil
  then show ?case by (simp add: valid_digits_def)
next
  case (Cons d ds)
  from Cons.prems obtain e es' where es: "es = e # es'" and e: "e < d"
    and v: "valid_digits ds es'"
    by (auto simp: valid_digits_def list_all2_Cons2)
  from undigits_less [OF v] have u: "undigits ds es' < prod_list ds" .
  from Cons.IH [OF v] u show ?case by (simp add: es)
qed

lemma valid_digits_rev: "valid_digits ds es \<Longrightarrow> valid_digits (rev ds) (rev es)"
  by (simp add: valid_digits_def list_all2_rev)

lemma valid_digits_length: "valid_digits ds es \<Longrightarrow> length es = length ds"
  by (simp add: valid_digits_def list_all2_lengthD)


lemma length_digits: "length (digits ds i) = length ds"
  by (induction ds arbitrary: i) simp_all

lemma rev_upto_nth: "j < k \<Longrightarrow> rev [1..int k] ! j = int (k - j)"
  by (simp add: rev_nth nth_upto)

lemma out_dims_reversal:
  "map (\<lambda>p. ds ! (nat p - 1)) (rev [1..int (length ds)]) = rev ds"
proof (rule nth_equalityI)
  show "length (map (\<lambda>p. ds ! (nat p - 1)) (rev [1..int (length ds)])) = length (rev ds)"
    by simp
next
  fix i
  assume "i < length (map (\<lambda>p. ds ! (nat p - 1)) (rev [1..int (length ds)]))"
  then have i: "i < length ds" by simp
  from i have r: "rev [1..int (length ds)] ! i = int (length ds - i)"
    by (rule rev_upto_nth)
  have "nat (int (length ds - i)) - 1 = length ds - Suc i" by simp
  with i r show "map (\<lambda>p. ds ! (nat p - 1)) (rev [1..int (length ds)]) ! i = rev ds ! i"
    by (simp add: rev_nth del: of_nat_diff)
qed

lemma position_nth: "distinct xs \<Longrightarrow> j < length xs \<Longrightarrow> position (xs ! j) xs = j"
proof (induction xs arbitrary: j)
  case Nil
  then show ?case by simp
next
  case (Cons x xs)
  then show ?case by (cases j) auto
qed

lemma position_reversal:
  assumes "s < k"
  shows "position (int s + 1) (rev [1..int k]) = k - Suc s"
proof -
  have "rev [1..int k] ! (k - Suc s) = int s + 1"
    using assms by (simp add: rev_upto_nth)
  moreover have "position (rev [1..int k] ! (k - Suc s)) (rev [1..int k]) = k - Suc s"
    using assms by (intro position_nth) simp_all
  ultimately show ?thesis by simp
qed

lemma placed_reversal:
  assumes "length e = k"
  shows "map (\<lambda>s. e ! position (int s + 1) (rev [1..int k])) [0..<k] = rev e"
  using assms by (intro nth_equalityI) (simp_all add: position_reversal rev_nth)

lemma lookup_table_reversal:
  "lookup_table (rev [1..int (length ds)]) ds
     = map (\<lambda>out. undigits ds (rev (digits (rev ds) out))) [0..<prod_list ds]"
  unfolding lookup_table_def Let_def out_dims_reversal
  by (simp add: placed_reversal length_digits)

lemma reversal_index_less:
  assumes "rev ds = ds" and "out < prod_list ds"
  shows "reversal_index ds out < prod_list ds"
proof -
  have "valid_digits (rev ds) (rev (digits ds out))"
    using assms(2) by (intro valid_digits_rev valid_digits_digits)
  then show ?thesis using assms(1) by (simp add: reversal_index_def undigits_less)
qed

lemma reversal_index_involution:
  assumes "rev ds = ds" and "out < prod_list ds"
  shows "reversal_index ds (reversal_index ds out) = out"
proof -
  have "valid_digits (rev ds) (rev (digits ds out))"
    using assms(2) by (intro valid_digits_rev valid_digits_digits)
  then have "digits ds (undigits ds (rev (digits ds out))) = rev (digits ds out)"
    using assms(1) by (simp add: digits_undigits)
  then show ?thesis using assms by (simp add: reversal_index_def undigits_digits)
qed

lemma length_lookup_table: "length (lookup_table perm ds) = prod_list ds"
  by (simp add: lookup_table_def)

lemma gather_reversal_twice:
  assumes "rev ds = ds" and "length xs = prod_list ds"
  shows "gather (gather xs (lookup_table (rev [1..int (length ds)]) ds))
           (lookup_table (rev [1..int (length ds)]) ds) = xs"
proof (rule nth_equalityI)
  show "length (gather (gather xs (lookup_table (rev [1..int (length ds)]) ds))
           (lookup_table (rev [1..int (length ds)]) ds)) = length xs"
    using assms(2) by (simp add: gather_def length_lookup_table)
next
  fix i
  assume "i < length (gather (gather xs (lookup_table (rev [1..int (length ds)]) ds))
           (lookup_table (rev [1..int (length ds)]) ds))"
  then have i: "i < prod_list ds" by (simp add: gather_def length_lookup_table)
  have t: "lookup_table (rev [1..int (length ds)]) ds ! j = reversal_index ds j"
    if "j < prod_list ds" for j
    using that by (simp add: lookup_table_reversal reversal_index_def)
  from reversal_index_less [OF assms(1) i] have l: "reversal_index ds i < prod_list ds" .
  show "gather (gather xs (lookup_table (rev [1..int (length ds)]) ds))
           (lookup_table (rev [1..int (length ds)]) ds) ! i = xs ! i"
    using i l t reversal_index_involution [OF assms(1) i]
    by (simp add: gather_def length_lookup_table)
qed

lemma gather_map:
  assumes "\<forall>i \<in> set table. i < length xs"
  shows "gather (map g xs) table = map g (gather xs table)"
  using assms by (simp add: gather_def)

lemma lookup_table_reversal_bound:
  assumes "rev ds = ds" and "i \<in> set (lookup_table (rev [1..int (length ds)]) ds)"
  shows "i < prod_list ds"
  using assms reversal_index_less [OF assms(1)]
  by (auto simp: lookup_table_reversal reversal_index_def)

lemma prod_list_map_nat:
  "list_all (\<lambda>d. 1 \<le> d) ds \<Longrightarrow> int (prod_list (map nat ds)) = prod_list ds"
  by (induction ds) (simp_all add: nat_mult_distrib)


lemma sort_reversal: "sort (rev [1..int k]) = [1..int k]"
  by (rule sorted_distinct_set_unique) simp_all

lemma upto_eq_length: "[1..int k] = [1..int m] \<Longrightarrow> k = m"
proof -
  assume "[1..int k] = [1..int m]"
  then have "length [1..int k] = length [1..int m]" by simp
  then show ?thesis by simp
qed

lemma permute_systems_InrD:
  assumes "permute_systems operand perm dims ro = Inr res"
  obtains rd cd where "engine_dims operand dims = Some (rd, cd)"
    and "dims_accepted operand rd cd"
    and "sort perm = [1..int (length rd)]"
    and "res = (case operand of
                  Arr1 xs \<Rightarrow> Arr1 (gather xs (lookup_table perm (map nat cd)))
                | Arr2 r c rows \<Rightarrow>
                    Arr2 r c (if ro then gather rows (lookup_table perm (map nat rd))
                              else map (\<lambda>row. gather row (lookup_table perm (map nat cd)))
                                     (gather rows (lookup_table perm (map nat rd)))))"
  using assms unfolding permute_systems_def dims_accepted_def Let_def
  by (auto split: option.splits if_splits)

lemma permute_systems_InrI:
  assumes "engine_dims operand dims = Some (rd, cd)"
    and "dims_accepted operand rd cd"
    and "sort perm = [1..int (length rd)]"
  shows "permute_systems operand perm dims ro =
         Inr (case operand of
                  Arr1 xs \<Rightarrow> Arr1 (gather xs (lookup_table perm (map nat cd)))
                | Arr2 r c rows \<Rightarrow>
                    Arr2 r c (if ro then gather rows (lookup_table perm (map nat rd))
                              else map (\<lambda>row. gather row (lookup_table perm (map nat cd)))
                                     (gather rows (lookup_table perm (map nat rd)))))"
  using assms unfolding permute_systems_def dims_accepted_def Let_def
  by (auto split: option.splits if_splits)

lemma engine_dims_Arr1:
  "engine_dims (Arr1 xs) dims = Some p \<Longrightarrow> engine_dims (Arr1 ys) dims = Some p"
  by (cases dims) (auto simp: engine_dims_def split: list.splits if_splits)

lemma engine_dims_Arr2:
  "engine_dims (Arr2 r c rows) dims = Some p \<Longrightarrow> engine_dims (Arr2 r' c' rows') dims = Some p"
  by (cases dims) (auto simp: engine_dims_def split: list.splits if_splits)

lemma permute_systems_reversal_twice:
  assumes wf: "wf_array operand"
    and res: "permute_systems operand (rev [1..int k]) dims ro = Inr res"
    and ed: "engine_dims operand dims = Some (rd, cd)"
    and pr: "rev rd = rd" and pc: "rev cd = cd"
  shows "permute_systems res (rev [1..int k]) dims ro = Inr operand"
proof -
  let ?rt = "lookup_table (rev [1..int k]) (map nat rd)"
  let ?ct = "lookup_table (rev [1..int k]) (map nat cd)"
  let ?g = "\<lambda>row. gather row ?ct"
  from res obtain rd' cd' where ed': "engine_dims operand dims = Some (rd', cd')"
    and acc': "dims_accepted operand rd' cd'"
    and srt': "sort (rev [1..int k]) = [1..int (length rd')]"
    and r': "res = (case operand of
                  Arr1 xs \<Rightarrow> Arr1 (gather xs (lookup_table (rev [1..int k]) (map nat cd')))
                | Arr2 r c rows \<Rightarrow>
                    Arr2 r c (if ro then gather rows (lookup_table (rev [1..int k]) (map nat rd'))
                              else map (\<lambda>row. gather row (lookup_table (rev [1..int k]) (map nat cd')))
                                     (gather rows (lookup_table (rev [1..int k]) (map nat rd')))))"
    by (rule permute_systems_InrD)
  from ed ed' have same: "rd' = rd" "cd' = cd" by simp_all
  note acc = acc' [unfolded same] and srt = srt' [unfolded same] and r = r' [unfolded same]
  from srt have "[1..int k] = [1..int (length rd)]" by (simp only: sort_reversal)
  then have "k = length rd" by (rule upto_eq_length)
  then have k: "length (map nat rd) = k" by simp
  from acc have "length cd = length rd" by (simp add: dims_accepted_def)
  with k have kc: "length (map nat cd) = k" by simp
  have prn: "rev (map nat rd) = map nat rd" using pr by (simp only: rev_map)
  have pcn: "rev (map nat cd) = map nat cd" using pc by (simp only: rev_map)
  from acc have pos: "list_all (\<lambda>d. 1 \<le> d) rd" "list_all (\<lambda>d. 1 \<le> d) cd"
    by (simp_all add: dims_accepted_def)
  from acc have rows: "prod_list (map nat rd) = fst (rho_dims operand)"
    using prod_list_map_nat [OF pos(1)] by (simp add: dims_accepted_def)
  from acc have cols: "prod_list (map nat cd) = snd (rho_dims operand)"
    using prod_list_map_nat [OF pos(2)] by (simp add: dims_accepted_def)
  have rr: "gather (gather xs ?rt) ?rt = xs" if "length xs = prod_list (map nat rd)" for xs :: "'b list"
    using gather_reversal_twice [OF prn that] unfolding k .
  have cc: "gather (gather xs ?ct) ?ct = xs" if "length xs = prod_list (map nat cd)" for xs :: "'b list"
    using gather_reversal_twice [OF pcn that] unfolding kc .
  have bound: "i < prod_list (map nat rd)" if "i \<in> set ?rt" for i
    using lookup_table_reversal_bound [OF prn, unfolded k, OF that] .
  have lrt: "length ?rt = prod_list (map nat rd)" by (rule length_lookup_table)
  have lct: "length ?ct = prod_list (map nat cd)" by (rule length_lookup_table)
  show ?thesis
  proof (cases operand)
    case (Arr1 xs)
    from r have res': "res = Arr1 (gather xs ?ct)" unfolding Arr1 by simp
    have edr: "engine_dims res dims = Some (rd, cd)"
      unfolding res' by (rule engine_dims_Arr1 [OF ed [unfolded Arr1]])
    from cols have lx: "length xs = prod_list (map nat cd)"
      unfolding Arr1 by (simp add: rho_dims_def)
    have "length (gather xs ?ct) = length xs"
      unfolding lx by (simp only: gather_def length_map lct)
    with acc have accr: "dims_accepted res rd cd"
      unfolding res' Arr1 dims_accepted_def by (simp add: rho_dims_def)
    from permute_systems_InrI [OF edr accr srt, of ro]
    have "permute_systems res (rev [1..int k]) dims ro = Inr (Arr1 (gather (gather xs ?ct) ?ct))"
      unfolding res' by simp
    then show ?thesis unfolding Arr1 by (simp only: cc [OF lx])
  next
    case (Arr2 r'' c'' rws)
    from wf rows have len: "length rws = prod_list (map nat rd)"
      unfolding Arr2 by (simp add: rho_dims_def)
    from wf cols have wid: "length row = prod_list (map nat cd)" if "row \<in> set rws" for row
      using that unfolding Arr2 by (simp add: list_all_iff rho_dims_def)
    from r have res': "res = Arr2 r'' c'' (if ro then gather rws ?rt else map ?g (gather rws ?rt))"
      unfolding Arr2 by simp
    have edr: "engine_dims res dims = Some (rd, cd)"
      unfolding res' by (rule engine_dims_Arr2 [OF ed [unfolded Arr2]])
    from acc have accr: "dims_accepted res rd cd"
      unfolding res' Arr2 dims_accepted_def by (simp add: rho_dims_def)
    from permute_systems_InrI [OF edr accr srt, of ro]
    have eng: "permute_systems res (rev [1..int k]) dims ro =
        Inr (Arr2 r'' c'' (if ro then gather (gather rws ?rt) ?rt
                           else map ?g (gather (map ?g (gather rws ?rt)) ?rt)))"
      unfolding res' by (cases ro) simp_all
    have "\<forall>i \<in> set ?rt. i < length (gather rws ?rt)"
      using bound by (simp add: gather_def lrt)
    then have "gather (map ?g (gather rws ?rt)) ?rt = map ?g (gather (gather rws ?rt) ?rt)"
      by (rule gather_map)
    then have "map ?g (gather (map ?g (gather rws ?rt)) ?rt) = map ?g (map ?g rws)"
      by (simp only: rr [OF len])
    also have "\<dots> = map (\<lambda>row. row) rws"
      unfolding map_map by (rule map_cong [OF refl]) (simp only: o_apply cc [OF wid])
    finally have both: "map ?g (gather (map ?g (gather rws ?rt)) ?rt) = rws"
      by simp
    show ?thesis unfolding eng Arr2 by (simp only: rr [OF len] both if_cancel)
  qed
qed

lemma permute_systems_rho_dims:
  assumes "permute_systems operand perm dims ro = Inr res"
  shows "rho_dims res = rho_dims operand"
proof -
  from assms obtain rd cd where acc: "dims_accepted operand rd cd"
    and r: "res = (case operand of
                  Arr1 xs \<Rightarrow> Arr1 (gather xs (lookup_table perm (map nat cd)))
                | Arr2 r c rows \<Rightarrow>
                    Arr2 r c (if ro then gather rows (lookup_table perm (map nat rd))
                              else map (\<lambda>row. gather row (lookup_table perm (map nat cd)))
                                     (gather rows (lookup_table perm (map nat rd)))))"
    by (rule permute_systems_InrD)
  from acc have pos: "list_all (\<lambda>d. 1 \<le> d) cd" by (simp add: dims_accepted_def)
  from acc have "prod_list (map nat cd) = snd (rho_dims operand)"
    using prod_list_map_nat [OF pos] by (simp add: dims_accepted_def)
  with r show ?thesis
    by (cases operand) (simp_all add: rho_dims_def gather_def length_lookup_table)
qed

lemma swap_dim_cong: "rho_dims rho' = rho_dims rho \<Longrightarrow> swap_dim rho' dim_in = swap_dim rho dim_in"
  by (simp add: swap_dim_def)

lemma swap_InrD:
  assumes "swap P rho sys dim_in ro = Inr res"
  obtains dim' k where "swap_dim rho dim_in = Inr (dim', k)"
    and "P rho (rev [1..int k]) dim' ro = Inr res"
  using assms unfolding swap_def Let_def
  by (auto split: sum.splits if_splits)

lemma swap_reaches_engine:
  assumes "swap P rho sys dim_in ro = Inr res" and "swap_dim rho' dim_in = Inr (dim', k)"
    and "swap_dim rho dim_in = Inr (dim', k)"
  shows "swap P rho' sys dim_in ro = P rho' (rev [1..int k]) dim' ro"
  using assms unfolding swap_def Let_def
  by (auto split: sum.splits if_splits)


lemma round_sqrt_from_square: "k \<le> m \<Longrightarrow> round_sqrt_from (m * m) k = m"
proof (induction "m - k" arbitrary: k)
  case 0
  then have "k = m" by simp
  then show ?case by (subst round_sqrt_from.simps) simp
next
  case (Suc d)
  then have le: "Suc k \<le> m" by simp
  from mult_le_mono [OF le le] have "Suc k * Suc k \<le> m * m" .
  then have no: "\<not> m * m \<le> k * k + k" by simp
  from Suc.hyps(2) have "d = m - Suc k" by simp
  from Suc.hyps(1) [OF this le] have "round_sqrt_from (m * m) (Suc k) = m" .
  with no show ?case by (subst round_sqrt_from.simps) simp
qed

lemma round_sqrt_square: "round_sqrt (m * m) = m"
  by (simp add: round_sqrt_def round_sqrt_from_square)

lemma swap_dim_default_square:
  assumes "rho_dims rho = (k * k, m * m)"
  shows "swap_dim rho DimNone = Inr (Dim2D [[int k, int k], [int m, int m]], 2)"
  using assms by (simp add: swap_dim_def round_sqrt_square)

section \<open>Properties of swap with the permutation engine\<close>


text \<open>
  A vector with a perfect square of entries and \<^verbatim>\<open>dim\<close> omitted: the two
  subsystems of dimension 2 of a vector of four entries are exchanged.
\<close>

lemma swap_vector_default_example:
  "swap permute_systems (Arr1 [1, 2, 3, 4 :: nat]) None DimNone False = Inr (Arr1 [1, 3, 2, 4])"
  by code_simp



text \<open>
  C5 as stated fails: on a vector of six entries with the dimensions \<open>[2, 3]\<close>
  the first swap gives the entries in the order \<open>0, 3, 1, 4, 2, 5\<close>, and the
  second swap with the same dimensions does not give back the original.
\<close>

theorem swap_twice_counterexample:
  "swap permute_systems (Arr1 [0, 1, 2, 3, 4, 5 :: nat]) (Some [1, 2]) (DimArr (Dim1D [2, 3])) False
     = Inr (Arr1 [0, 3, 1, 4, 2, 5])
   \<and> swap permute_systems (Arr1 [0, 3, 1, 4, 2, 5 :: nat]) (Some [1, 2]) (DimArr (Dim1D [2, 3])) False
     = Inr (Arr1 [0, 4, 3, 2, 1, 5])"
  by code_simp

text \<open>
  C5, amended.  For a well-formed operand on which \<^verbatim>\<open>swap\<close> succeeds, if all
  subsystems have the same row dimension \<open>a\<close> and the same column dimension
  \<open>b\<close>, a second \<^verbatim>\<open>swap\<close> with the same selector, dimensions and flag returns
  the original operand.
\<close>

theorem swap_twice_equal_dims:
  assumes wf: "wf_array rho"
    and first: "swap permute_systems rho sys dim_in ro = Inr res"
    and dims: "swap_dim rho dim_in = Inr (dim', k)"
    and eq: "engine_dims rho dim' = Some (replicate n a, replicate m b)"
  shows "swap permute_systems res sys dim_in ro = Inr rho"
proof -
  from first obtain dim'' k' where "swap_dim rho dim_in = Inr (dim'', k')"
    and "permute_systems rho (rev [1..int k']) dim'' ro = Inr res"
    by (rule swap_InrD)
  with dims have eng: "permute_systems rho (rev [1..int k]) dim' ro = Inr res"
    by simp
  have "swap_dim res dim_in = swap_dim rho dim_in"
    by (rule swap_dim_cong [OF permute_systems_rho_dims [OF eng]])
  with dims have "swap_dim res dim_in = Inr (dim', k)" by simp
  from swap_reaches_engine [OF first this dims]
  have "swap permute_systems res sys dim_in ro = permute_systems res (rev [1..int k]) dim' ro" .
  also have "\<dots> = Inr rho"
    by (rule permute_systems_reversal_twice [OF wf eng eq]) simp_all
  finally show ?thesis .
qed


theorem swap_twice_equal_dims_witness:
  "swap permute_systems
      (Arr2 4 4 [[1, 3, 2, 4], [9, 11, 10, 12], [5, 7, 6, 8], [13, 15, 14, 16 :: nat]])
      None DimNone False
     = Inr (Arr2 4 4 [[1, 2, 3, 4], [5, 6, 7, 8], [9, 10, 11, 12], [13, 14, 15, 16]])
   \<and> swap permute_systems (Arr1 [1, 3, 2, 4 :: nat]) None DimNone False
     = Inr (Arr1 [1, 2, 3, 4])"
proof
  let ?rho = "Arr2 4 4 [[1, 2, 3, 4], [5, 6, 7, 8], [9, 10, 11, 12], [13, 14, 15, 16 :: nat]]"
  let ?res = "Arr2 4 4 [[1, 3, 2, 4], [9, 11, 10, 12], [5, 7, 6, 8], [13, 15, 14, 16 :: nat]]"
  have wf: "wf_array ?rho" by simp
  have first: "swap permute_systems ?rho None DimNone False = Inr ?res" by code_simp
  have dims: "swap_dim ?rho DimNone = Inr (Dim2D [[2, 2], [2, 2]], 2)" by code_simp
  have eq: "engine_dims ?rho (Dim2D [[2, 2], [2, 2]]) = Some (replicate 2 2, replicate 2 2)"
    by code_simp
  show "swap permute_systems ?res None DimNone False = Inr ?rho"
    by (rule swap_twice_equal_dims [OF wf first dims eq])
next
  let ?v = "Arr1 [1, 2, 3, 4 :: nat]"
  have wf: "wf_array ?v" by simp
  have first: "swap permute_systems ?v None DimNone False = Inr (Arr1 [1, 3, 2, 4])"
    by code_simp
  have dims: "swap_dim ?v DimNone = Inr (Dim2D [[1, 1], [2, 2]], 2)" by code_simp
  have eq: "engine_dims ?v (Dim2D [[1, 1], [2, 2]]) = Some (replicate 2 1, replicate 2 2)"
    by code_simp
  show "swap permute_systems (Arr1 [1, 3, 2, 4 :: nat]) None DimNone False = Inr ?v"
    by (rule swap_twice_equal_dims [OF wf first dims eq])
qed

end
